theory Spec2Isabelle
  imports Complex_Main "HOL-Library.Multiset"
begin


section \<open>Decoded JSON and the Python operations the scripts apply to it\<close>

text \<open>
  Both scripts (\<^verbatim>\<open>team_metrics.py\<close>, \<^verbatim>\<open>capitalizacao.py\<close>) work on the value that
  \<^verbatim>\<open>response.json()\<close> returns: nested Python dicts, lists, strings, numbers, booleans
  and \<^verbatim>\<open>None\<close>. A dict is an association list read with \<open>map_of\<close>. JSON numbers are
  modelled at integer values (Python \<^verbatim>\<open>int\<close>); floats are outside the model. Strings are
  byte lists, and the string operations below are Python's on ASCII text.
\<close>

datatype json =
    JNull
  | JBool bool
  | JNum int
  | JStr string
  | JArr "json list"
  | JObj "(string \<times> json) list"

text \<open>
  Every exception the modelled code can raise is a value. \<open>Exception\<close> and \<open>ValueError\<close>
  carry the message of the \<^verbatim>\<open>raise\<close> statement; the others are raised by Python itself
  when an operation meets a value of the wrong shape.
\<close>

datatype error =
    Exception string
  | ValueError string
  | KeyError string
  | TypeError
  | AttributeError
  | RequestException

definition bindE :: "error + 'a \<Rightarrow> ('a \<Rightarrow> error + 'b) \<Rightarrow> error + 'b" where
  "bindE m f = (case m of Inl e \<Rightarrow> Inl e | Inr v \<Rightarrow> f v)"

text \<open>Truth value of a Python object, as \<^verbatim>\<open>not x\<close>, \<^verbatim>\<open>if x\<close> and \<^verbatim>\<open>x or y\<close> test it.\<close>

fun truthy :: "json \<Rightarrow> bool" where
  "truthy JNull = False"
| "truthy (JBool b) = b"
| "truthy (JNum n) = (n \<noteq> 0)"
| "truthy (JStr s) = (s \<noteq> [])"
| "truthy (JArr xs) = (xs \<noteq> [])"
| "truthy (JObj kvs) = (kvs \<noteq> [])"

fun is_substring :: "string \<Rightarrow> string \<Rightarrow> bool" where
  "is_substring k [] = (k = [])"
| "is_substring k (c # cs) = (take (length k) (c # cs) = k \<or> is_substring k cs)"

text \<open>\<^verbatim>\<open>key in x\<close> for a string key.\<close>

fun py_contains :: "string \<Rightarrow> json \<Rightarrow> error + bool" where
  "py_contains k (JObj kvs) = Inr (k \<in> set (map fst kvs))"
| "py_contains k (JArr xs) = Inr (JStr k \<in> set xs)"
| "py_contains k (JStr s) = Inr (is_substring k s)"
| "py_contains k JNull = Inl TypeError"
| "py_contains k (JBool b) = Inl TypeError"
| "py_contains k (JNum n) = Inl TypeError"

text \<open>\<^verbatim>\<open>x[key]\<close> for a string key: only a dict can be indexed by a string.\<close>

fun py_getitem :: "json \<Rightarrow> string \<Rightarrow> error + json" where
  "py_getitem (JObj kvs) k = (case map_of kvs k of None \<Rightarrow> Inl (KeyError k) | Some v \<Rightarrow> Inr v)"
| "py_getitem JNull k = Inl TypeError"
| "py_getitem (JBool b) k = Inl TypeError"
| "py_getitem (JNum n) k = Inl TypeError"
| "py_getitem (JStr s) k = Inl TypeError"
| "py_getitem (JArr xs) k = Inl TypeError"

text \<open>\<^verbatim>\<open>x.get(key, default)\<close>; \<^verbatim>\<open>x.get(key)\<close> is the call with default \<open>JNull\<close>.\<close>

fun py_get :: "json \<Rightarrow> string \<Rightarrow> json \<Rightarrow> error + json" where
  "py_get (JObj kvs) k d = Inr (case map_of kvs k of None \<Rightarrow> d | Some v \<Rightarrow> v)"
| "py_get JNull k d = Inl AttributeError"
| "py_get (JBool b) k d = Inl AttributeError"
| "py_get (JNum n) k d = Inl AttributeError"
| "py_get (JStr s) k d = Inl AttributeError"
| "py_get (JArr xs) k d = Inl AttributeError"

text \<open>The elements a \<^verbatim>\<open>for\<close> loop (or \<^verbatim>\<open>list.extend\<close>) draws from a value.\<close>

fun py_iter :: "json \<Rightarrow> error + json list" where
  "py_iter (JArr xs) = Inr xs"
| "py_iter (JStr s) = Inr (map (\<lambda>c. JStr [c]) s)"
| "py_iter (JObj kvs) = Inr (map (\<lambda>kv. JStr (fst kv)) kvs)"
| "py_iter JNull = Inl TypeError"
| "py_iter (JBool b) = Inl TypeError"
| "py_iter (JNum n) = Inl TypeError"

subsection \<open>Strings: \<^verbatim>\<open>strip\<close>, \<^verbatim>\<open>lower\<close>, \<^verbatim>\<open>str\<close>\<close>

definition is_space :: "char \<Rightarrow> bool" where
  "is_space c = (let n = (of_char c :: nat) in n = 32 \<or> (9 \<le> n \<and> n \<le> 13) \<or> (28 \<le> n \<and> n \<le> 31))"

definition strip :: "string \<Rightarrow> string" where
  "strip s = rev (dropWhile is_space (rev (dropWhile is_space s)))"

definition lower_char :: "char \<Rightarrow> char" where
  "lower_char c = (let n = (of_char c :: nat) in if 65 \<le> n \<and> n \<le> 90 then char_of (n + 32) else c)"

definition lower :: "string \<Rightarrow> string" where
  "lower s = map lower_char s"

definition digit_char :: "nat \<Rightarrow> char" where
  "digit_char d = char_of (48 + d)"

fun str_nat :: "nat \<Rightarrow> string" where
  "str_nat n = (if n < 10 then [digit_char n] else str_nat (n div 10) @ [digit_char (n mod 10)])"

declare str_nat.simps [simp del]

definition str_int :: "int \<Rightarrow> string" where
  "str_int i = (if i < 0 then CHR ''-'' # str_nat (nat (- i)) else str_nat (nat i))"

definition hex_digit :: "nat \<Rightarrow> char" where
  "hex_digit d = (if d < 10 then char_of (48 + d) else char_of (87 + d))"

definition repr_char :: "char \<Rightarrow> char \<Rightarrow> string" where
  "repr_char q c =
     (let n = (of_char c :: nat) in
      if c = q \<or> c = CHR 0x5C then [CHR 0x5C, c]
      else if n = 10 then [CHR 0x5C, CHR ''n'']
      else if n = 13 then [CHR 0x5C, CHR ''r'']
      else if n = 9 then [CHR 0x5C, CHR ''t'']
      else if n < 32 \<or> n = 127 then [CHR 0x5C, CHR ''x'', hex_digit (n div 16), hex_digit (n mod 16)]
      else [c])"

definition repr_str :: "string \<Rightarrow> string" where
  "repr_str s =
     (let q = (if CHR 0x27 \<in> set s \<and> CHR 0x22 \<notin> set s then CHR 0x22 else CHR 0x27)
      in q # concat (map (repr_char q) s) @ [q])"

fun join_comma :: "string list \<Rightarrow> string" where
  "join_comma [] = []"
| "join_comma [x] = x"
| "join_comma (x # y # ys) = x @ '', '' @ join_comma (y # ys)"

text \<open>\<^verbatim>\<open>repr(x)\<close>, which \<^verbatim>\<open>str\<close> of a list or dict applies to the elements.\<close>

fun py_repr :: "json \<Rightarrow> string" where
  "py_repr JNull = ''None''"
| "py_repr (JBool b) = (if b then ''True'' else ''False'')"
| "py_repr (JNum n) = str_int n"
| "py_repr (JStr s) = repr_str s"
| "py_repr (JArr xs) = ''['' @ join_comma (map py_repr xs) @ '']''"
| "py_repr (JObj kvs) =
     ''{'' @ join_comma (map (\<lambda>kv. repr_str (fst kv) @ '': '' @ py_repr (snd kv)) kvs) @ ''}''"

text \<open>\<^verbatim>\<open>str(x)\<close>: a string is itself, everything else is its \<^verbatim>\<open>repr\<close>.\<close>

definition py_str :: "json \<Rightarrow> string" where
  "py_str x = (case x of JStr s \<Rightarrow> s | _ \<Rightarrow> py_repr x)"

text \<open>\<^verbatim>\<open>a or b\<close> on already evaluated operands.\<close>

definition py_or :: "json \<Rightarrow> json \<Rightarrow> json" where
  "py_or a b = (if truthy a then a else b)"

section \<open>Field extractors\<close>

definition KIND_FIELD :: string where "KIND_FIELD = ''Kind''"
definition TYPE_FIELD :: string where "TYPE_FIELD = ''Type''"
definition SCOPE_FIELD :: string where "SCOPE_FIELD = ''Scope''"

text \<open>
  The guard that opens both loops:
  \<^verbatim>\<open>if not field or "field" not in field or not field["field"]: continue\<close>.
  \<open>Inr True\<close> means the entry is skipped.
\<close>

definition skip_field :: "json \<Rightarrow> error + bool" where
  "skip_field field =
     (if \<not> truthy field then Inr True
      else bindE (py_contains ''field'' field) (\<lambda>has.
        if \<not> has then Inr True
        else bindE (py_getitem field ''field'') (\<lambda>f. Inr (\<not> truthy f))))"

text \<open>\<^verbatim>\<open>field["field"].get("name", "").strip().lower()\<close>\<close>

definition field_name :: "json \<Rightarrow> error + string" where
  "field_name field =
     bindE (py_getitem field ''field'') (\<lambda>f.
     bindE (py_get f ''name'' (JStr '''')) (\<lambda>n.
       case n of JStr s \<Rightarrow> Inr (lower (strip s)) | _ \<Rightarrow> Inl AttributeError))"

text \<open>
  \<^verbatim>\<open>field.get("name") or field.get("text") or (str(field["number"]) if "number" in field
  and field["number"] is not None else None)\<close>, with Python's short-circuit evaluation.
\<close>

definition field_value :: "json \<Rightarrow> error + json" where
  "field_value field =
     bindE (py_get field ''name'' JNull) (\<lambda>a.
       if truthy a then Inr a
       else bindE (py_get field ''text'' JNull) (\<lambda>b.
         if truthy b then Inr b
         else bindE (py_contains ''number'' field) (\<lambda>has.
           if \<not> has then Inr JNull
           else bindE (py_getitem field ''number'') (\<lambda>n.
             if n = JNull then Inr JNull
             else bindE (py_getitem field ''number'') (\<lambda>m. Inr (JStr (py_str m)))))))"

text \<open>
  \<^verbatim>\<open>item["fieldValues"]["nodes"]\<close> behind the guard
  \<^verbatim>\<open>"fieldValues" in item and "nodes" in item["fieldValues"]\<close>: the list the loop
  runs over, or \<open>None\<close> when the guard is false and the loop is not entered.
\<close>

definition field_nodes :: "json \<Rightarrow> error + json list option" where
  "field_nodes item =
     bindE (py_contains ''fieldValues'' item) (\<lambda>has.
       if \<not> has then Inr None
       else bindE (py_getitem item ''fieldValues'') (\<lambda>fv.
         bindE (py_contains ''nodes'' fv) (\<lambda>has_nodes.
           if \<not> has_nodes then Inr None
           else bindE (py_getitem item ''fieldValues'') (\<lambda>fv2.
             bindE (py_getitem fv2 ''nodes'') (\<lambda>ns.
               bindE (py_iter ns) (\<lambda>l. Inr (Some l)))))))"

subsection \<open>\<^verbatim>\<open>extract_scope\<close>\<close>

text \<open>
  One iteration of the loop of \<^verbatim>\<open>extract_scope\<close>: \<open>Some v\<close> is \<^verbatim>\<open>return field_value\<close>,
  \<open>None\<close> is falling through to the next entry.
\<close>

definition scope_step :: "json \<Rightarrow> error + json option" where
  "scope_step field =
     bindE (skip_field field) (\<lambda>skip.
       if skip then Inr None
       else bindE (field_name field) (\<lambda>name.
         bindE (field_value field) (\<lambda>v.
           if \<not> truthy v then Inr None
           else if name = lower SCOPE_FIELD then Inr (Some v)
           else Inr None)))"

fun scope_loop :: "json list \<Rightarrow> error + json option" where
  "scope_loop [] = Inr None"
| "scope_loop (field # rest) =
     bindE (scope_step field) (\<lambda>r. case r of Some v \<Rightarrow> Inr (Some v) | None \<Rightarrow> scope_loop rest)"

definition extract_scope :: "json \<Rightarrow> error + json" where
  "extract_scope item =
     bindE (field_nodes item) (\<lambda>nodes.
       bindE (case nodes of None \<Rightarrow> Inr None | Some l \<Rightarrow> scope_loop l) (\<lambda>r.
         case r of Some v \<Rightarrow> Inr v | None \<Rightarrow> Inr (JStr ''Sem Scope'')))"

subsection \<open>\<^verbatim>\<open>extract_type\<close>\<close>

text \<open>
  One iteration of the loop of \<^verbatim>\<open>extract_type\<close>, on the pair
  (\<^verbatim>\<open>kind_value\<close>, \<^verbatim>\<open>type_value\<close>); both start as \<^verbatim>\<open>None\<close>.
\<close>

definition type_step :: "json \<Rightarrow> json \<times> json \<Rightarrow> error + json \<times> json" where
  "type_step field st =
     bindE (skip_field field) (\<lambda>skip.
       if skip then Inr st
       else bindE (field_name field) (\<lambda>name.
         bindE (field_value field) (\<lambda>v.
           if \<not> truthy v then Inr st
           else if name = lower KIND_FIELD then Inr (v, snd st)
           else if name = lower TYPE_FIELD then Inr (fst st, v)
           else Inr st)))"

fun type_loop :: "json list \<Rightarrow> json \<times> json \<Rightarrow> error + json \<times> json" where
  "type_loop [] st = Inr st"
| "type_loop (field # rest) st = bindE (type_step field st) (type_loop rest)"

text \<open>
  The tail of \<^verbatim>\<open>extract_type\<close>, after \<^verbatim>\<open>kind_value\<close> and \<^verbatim>\<open>type_value\<close> were both found
  falsy: the issue's own \<^verbatim>\<open>issueType.name\<close>, or \<^verbatim>\<open>"Desconhecido"\<close>.
\<close>

definition issue_type_fallback :: "json \<Rightarrow> error + json" where
  "issue_type_fallback item =
     bindE (py_get item ''content'' JNull) (\<lambda>issue.
       if \<not> truthy issue then Inr (JStr ''Desconhecido'')
       else bindE (py_contains ''issueType'' issue) (\<lambda>has.
         if \<not> has then Inr (JStr ''Desconhecido'')
         else bindE (py_getitem issue ''issueType'') (\<lambda>it.
           if \<not> truthy it then Inr (JStr ''Desconhecido'')
           else bindE (py_getitem issue ''issueType'') (\<lambda>it2.
             bindE (py_get it2 ''name'' JNull) (\<lambda>n.
               Inr (py_or n (JStr ''Desconhecido'')))))))"

definition "extract_type" :: "json \<Rightarrow> error + json" where
  "extract_type item =
     bindE (field_nodes item) (\<lambda>nodes.
       bindE (case nodes of None \<Rightarrow> Inr (JNull, JNull) | Some l \<Rightarrow> type_loop l (JNull, JNull)) (\<lambda>st.
         if truthy (fst st) then Inr (fst st)
         else if truthy (snd st) then Inr (snd st)
         else issue_type_fallback item))"


subsection \<open>\<^verbatim>\<open>extract_assignees\<close> (\<^verbatim>\<open>team_metrics.py\<close> only)\<close>

text \<open>One element of the comprehension \<^verbatim>\<open>[a["login"] for a in ... if a and a.get("login")]\<close>.\<close>

definition assignee_step :: "json \<Rightarrow> error + json option" where
  "assignee_step a =
     (if \<not> truthy a then Inr None
      else bindE (py_get a ''login'' JNull) (\<lambda>l.
        if \<not> truthy l then Inr None
        else bindE (py_getitem a ''login'') (\<lambda>l2. Inr (Some l2))))"

fun assignee_loop :: "json list \<Rightarrow> error + json list" where
  "assignee_loop [] = Inr []"
| "assignee_loop (a # rest) =
     bindE (assignee_step a) (\<lambda>r.
       bindE (assignee_loop rest) (\<lambda>ls. Inr (case r of Some l \<Rightarrow> l # ls | None \<Rightarrow> ls)))"

definition extract_assignees :: "json \<Rightarrow> error + json list" where
  "extract_assignees item =
     bindE (py_get item ''content'' JNull) (\<lambda>issue.
       if \<not> truthy issue then Inr []
       else bindE (py_contains ''assignees'' issue) (\<lambda>has.
         if \<not> has then Inr []
         else bindE (py_getitem issue ''assignees'') (\<lambda>asg.
           if \<not> truthy asg then Inr []
           else bindE (py_contains ''nodes'' asg) (\<lambda>has_nodes.
             if \<not> has_nodes then Inr []
             else bindE (py_getitem issue ''assignees'') (\<lambda>asg2.
               bindE (py_getitem asg2 ''nodes'') (\<lambda>ns.
                 bindE (py_iter ns) assignee_loop))))))"

subsection \<open>Items as the query of \<^verbatim>\<open>get_project_items\<close> shapes them\<close>

text \<open>
  The GraphQL document in \<^verbatim>\<open>get_project_items\<close> asks, per item, for \<^verbatim>\<open>content\<close> (with
  \<^verbatim>\<open>issueType { name }\<close>) and for \<^verbatim>\<open>fieldValues { nodes { field { name } name text number } }\<close>.
  A well-formed item is a dict in which each of these keys, when present, holds a value of
  the type the query gives it or \<^verbatim>\<open>null\<close>; a node of a field type the query has no
  fragment for is the empty dict. The name of a field, when present, is a string.
\<close>

definition is_str :: "json \<Rightarrow> bool" where
  "is_str v = (case v of JStr s \<Rightarrow> True | _ \<Rightarrow> False)"

definition is_num :: "json \<Rightarrow> bool" where
  "is_num v = (case v of JNum n \<Rightarrow> True | _ \<Rightarrow> False)"

definition opt_key :: "(string \<times> json) list \<Rightarrow> string \<Rightarrow> (json \<Rightarrow> bool) \<Rightarrow> bool" where
  "opt_key kvs k P = (case map_of kvs k of None \<Rightarrow> True | Some v \<Rightarrow> v = JNull \<or> P v)"

definition wf_field_ref :: "json \<Rightarrow> bool" where
  "wf_field_ref f =
     (case f of JObj kvs \<Rightarrow> (case map_of kvs ''name'' of None \<Rightarrow> True | Some n \<Rightarrow> is_str n)
      | _ \<Rightarrow> False)"

definition wf_field_value :: "json \<Rightarrow> bool" where
  "wf_field_value fv =
     (case fv of
        JNull \<Rightarrow> True
      | JObj kvs \<Rightarrow>
          opt_key kvs ''field'' wf_field_ref \<and> opt_key kvs ''name'' is_str \<and>
          opt_key kvs ''text'' is_str \<and> opt_key kvs ''number'' is_num
      | _ \<Rightarrow> False)"

definition wf_fields :: "json \<Rightarrow> bool" where
  "wf_fields item =
     (case item of
        JObj kvs \<Rightarrow>
          (case map_of kvs ''fieldValues'' of
             None \<Rightarrow> True
           | Some (JObj fkvs) \<Rightarrow>
               (case map_of fkvs ''nodes'' of
                  None \<Rightarrow> True
                | Some (JArr ns) \<Rightarrow> list_all wf_field_value ns
                | Some _ \<Rightarrow> False)
           | Some _ \<Rightarrow> False)
      | _ \<Rightarrow> False)"




text \<open>
  What one entry of the field-value list contributes to a scan: its normalised field name
  and its coerced value when the entry gets past both \<^verbatim>\<open>continue\<close> statements, nothing
  otherwise.
\<close>

definition entry :: "json \<Rightarrow> (string \<times> json) option" where
  "entry fv =
     (case skip_field fv of
        Inr False \<Rightarrow>
          (case field_name fv of
             Inr n \<Rightarrow> (case field_value fv of
                         Inr v \<Rightarrow> if truthy v then Some (n, v) else None
                       | Inl e \<Rightarrow> None)
           | Inl e \<Rightarrow> None)
      | _ \<Rightarrow> None)"

definition item_entries :: "json \<Rightarrow> (string \<times> json) list" where
  "item_entries item =
     (case field_nodes item of Inr (Some l) \<Rightarrow> List.map_filter entry l | _ \<Rightarrow> [])"

text \<open>The non-empty values of the fields named \<open>n\<close> (a lower-case name), in list order.\<close>

definition values_named :: "string \<Rightarrow> json \<Rightarrow> json list" where
  "values_named n item = map snd (filter (\<lambda>e. fst e = n) (item_entries item))"


text \<open>An item with the two keys of the query, and a field-value node with a named field.\<close>

definition project_item :: "json \<Rightarrow> json list \<Rightarrow> json" where
  "project_item content nodes =
     JObj [(''content'', content), (''fieldValues'', JObj [(''nodes'', JArr nodes)])]"

definition named_node :: "string \<Rightarrow> (string \<times> json) list \<Rightarrow> json" where
  "named_node n shape = JObj ((''field'', JObj [(''name'', JStr n)]) # shape)"

section \<open>The GraphQL client\<close>

text \<open>
  What \<^verbatim>\<open>requests.post\<close> hands back, as far as \<^verbatim>\<open>run_query\<close> reads it: the status code,
  the body as text, and the body decoded by \<^verbatim>\<open>response.json()\<close> (\<open>None\<close> when the body is
  not JSON and the call raises).
\<close>

record response =
  status_code :: int
  response_text :: string
  response_json :: "json option"

text \<open>
  The three GraphQL documents of the scripts, by name: the organisation-scoped and the
  user-scoped project lookups of \<^verbatim>\<open>get_project_id_from_url\<close>, and the items page of
  \<^verbatim>\<open>get_project_items\<close>.
\<close>

datatype query = OrganizationProject | UserProject | ProjectItems

text \<open>
  The network is a parameter: the answer of \<^verbatim>\<open>requests.post(API_URL, json={"query": query,
  "variables": variables}, headers=HEADERS)\<close> for a query and its variables, or the
  exception the call raises.
\<close>

type_synonym transport = "query \<Rightarrow> json \<Rightarrow> error + response"

definition run_query :: "transport \<Rightarrow> query \<Rightarrow> json \<Rightarrow> error + json" where
  "run_query post q variables =
     bindE (post q variables) (\<lambda>response.
       if status_code response \<noteq> 200
       then Inl (Exception (''Erro na API GitHub: '' @ str_int (status_code response) @ '', '' @
                            response_text response))
       else (case response_json response of
               None \<Rightarrow> Inl RequestException
             | Some data \<Rightarrow>
                 bindE (py_contains ''errors'' data) (\<lambda>has.
                   if has
                   then bindE (py_getitem data ''errors'') (\<lambda>errs.
                          Inl (Exception (''Erro GraphQL: '' @ py_str errs)))
                   else Inr data)))"

section \<open>The project resolver\<close>








text \<open>\<^verbatim>\<open>x[k1][k2]...\<close>\<close>

fun py_path :: "json \<Rightarrow> string list \<Rightarrow> error + json" where
  "py_path x [] = Inr x"
| "py_path x (k # ks) = bindE (py_getitem x k) (\<lambda>y. py_path y ks)"




section \<open>The paginated item fetcher\<close>

text \<open>
  One turn of the \<^verbatim>\<open>while True\<close> loop of \<^verbatim>\<open>get_project_items\<close>, up to the decision: the
  nodes that \<^verbatim>\<open>results.extend\<close> appends, and the next cursor (\<open>None\<close> when the page reports
  a falsy \<^verbatim>\<open>hasNextPage\<close> and the loop breaks; \<^verbatim>\<open>endCursor\<close> is read only otherwise).
\<close>

definition fetch_page :: "transport \<Rightarrow> json \<Rightarrow> json \<Rightarrow> error + json list \<times> json option" where
  "fetch_page post project_id cursor =
     bindE (run_query post ProjectItems (JObj [(''projectId'', project_id), (''cursor'', cursor)]))
       (\<lambda>data.
     bindE (py_path data [''data'', ''node'', ''items'']) (\<lambda>items.
     bindE (py_getitem items ''nodes'') (\<lambda>ns.
     bindE (py_iter ns) (\<lambda>nodes.
     bindE (py_path items [''pageInfo'', ''hasNextPage'']) (\<lambda>has_next.
       if \<not> truthy has_next then Inr (nodes, None)
       else bindE (py_path items [''pageInfo'', ''endCursor'']) (\<lambda>c. Inr (nodes, Some c)))))))"

text \<open>
  The loop has no bound: a server that never reports a last page keeps it running. The
  result is \<open>None\<close> when the loop does not return.
\<close>

partial_function (option) fetch_loop ::
  "transport \<Rightarrow> json \<Rightarrow> json list \<Rightarrow> json \<Rightarrow> (error + json list) option" where
  "fetch_loop post project_id results cursor =
     (case fetch_page post project_id cursor of
        Inl e \<Rightarrow> Some (Inl e)
      | Inr (nodes, None) \<Rightarrow> Some (Inr (results @ nodes))
      | Inr (nodes, Some c) \<Rightarrow> fetch_loop post project_id (results @ nodes) c)"

definition get_project_items :: "transport \<Rightarrow> json \<Rightarrow> (error + json list) option" where
  "get_project_items post project_id = fetch_loop post project_id [] JNull"

text \<open>
  A server that holds a fixed sequence of pages for one project, each page with the cursor
  it hands out: the turn of the loop at cursor \<open>c\<close> reads the first page, with a true
  \<^verbatim>\<open>hasNextPage\<close> and the page's \<^verbatim>\<open>endCursor\<close> exactly when more pages follow, and the rest
  is served from that cursor on.
\<close>

fun serves :: "transport \<Rightarrow> json \<Rightarrow> json \<Rightarrow> (json list \<times> json) list \<Rightarrow> bool" where
  "serves post project_id cursor [] = False"
| "serves post project_id cursor [(nodes, c)] =
     (fetch_page post project_id cursor = Inr (nodes, None))"
| "serves post project_id cursor ((nodes, c) # p # ps) =
     (fetch_page post project_id cursor = Inr (nodes, Some c) \<and> serves post project_id c (p # ps))"

text \<open>A server that reports another page at every cursor.\<close>

definition endless :: "transport \<Rightarrow> json \<Rightarrow> bool" where
  "endless post project_id =
     (\<forall>cursor. \<exists>nodes c. fetch_page post project_id cursor = Inr (nodes, Some c))"

text \<open>
  A stand-in for the API, for running the fetcher on fixed data: it holds a list of pages
  and hands out the page number as cursor. Page \<open>i\<close> is reported with \<^verbatim>\<open>hasNextPage\<close> true
  exactly when page \<open>i + 1\<close> exists.
\<close>

definition page_response :: "json list \<Rightarrow> bool \<Rightarrow> json \<Rightarrow> response" where
  "page_response nodes has_next cursor =
     \<lparr>status_code = 200, response_text = [],
      response_json = Some (JObj [(''data'', JObj [(''node'', JObj [(''items'',
        JObj [(''pageInfo'', JObj [(''hasNextPage'', JBool has_next), (''endCursor'', cursor)]),
              (''nodes'', JArr nodes)])])])])\<rparr>"

definition paged_server :: "json list list \<Rightarrow> transport" where
  "paged_server pages q variables =
     (case py_getitem variables ''cursor'' of
        Inr JNull \<Rightarrow>
          (case pages of [] \<Rightarrow> Inl RequestException
           | p # ps \<Rightarrow> Inr (page_response p (ps \<noteq> []) (JNum 1)))
      | Inr (JNum i) \<Rightarrow>
          if 0 \<le> i \<and> nat i < length pages
          then Inr (page_response (pages ! nat i) (nat i + 1 < length pages) (JNum (i + 1)))
          else Inl RequestException
      | _ \<Rightarrow> Inl RequestException)"


section \<open>The main programs: filtering and aggregation\<close>

subsection \<open>Dates\<close>

text \<open>
  \<^verbatim>\<open>parser.isoparse\<close> comes from the \<^verbatim>\<open>dateutil\<close> library; the programs are modelled for any
  parser. Of the \<^verbatim>\<open>datetime\<close> it returns the programs read the calendar date only
  (\<^verbatim>\<open>closed.date()\<close>, \<^verbatim>\<open>closed.year\<close>, \<^verbatim>\<open>closed.month\<close>), in the timestamp's own time zone.
\<close>

record datetime =
  dt_year :: nat
  dt_month :: nat
  dt_day :: nat

type_synonym isoparser = "json \<Rightarrow> error + datetime"

text \<open>\<^verbatim>\<open>"%0wd" % n\<close>: at least \<open>w\<close> digits, padded with zeros on the left.\<close>

definition zero_pad :: "nat \<Rightarrow> nat \<Rightarrow> string" where
  "zero_pad w n = replicate (w - length (str_nat n)) (CHR ''0'') @ str_nat n"

text \<open>\<^verbatim>\<open>date.isoformat()\<close>: \<^verbatim>\<open>YYYY-MM-DD\<close>.\<close>

definition isoformat :: "datetime \<Rightarrow> string" where
  "isoformat d = zero_pad 4 (dt_year d) @ ''-'' @ zero_pad 2 (dt_month d) @ ''-'' @ zero_pad 2 (dt_day d)"

text \<open>
  \<^verbatim>\<open>a <= b\<close> on Python strings: lexicographic by code point, a proper prefix being smaller.
\<close>

fun str_le :: "string \<Rightarrow> string \<Rightarrow> bool" where
  "str_le [] t = True"
| "str_le (a # s) [] = False"
| "str_le (a # s) (b # t) =
     ((of_char a :: nat) < of_char b \<or> (a = b \<and> str_le s t))"




subsection \<open>\<^verbatim>\<open>team_metrics.py\<close>: the date range\<close>

definition START_DATE :: string where "START_DATE = ''2025-10-07''"
definition END_DATE :: string where "END_DATE = ''2025-12-10''"

text \<open>
  The two \<^verbatim>\<open>continue\<close> guards at the head of the loop over the items:
  \<^verbatim>\<open>if not issue or not issue.get("closedAt"): continue\<close> and
  \<^verbatim>\<open>if not (START_DATE <= closed.date().isoformat() <= END_DATE): continue\<close>.
  \<open>Inr True\<close> means the item goes on to become a row of the report.
\<close>

definition in_date_range :: "isoparser \<Rightarrow> json \<Rightarrow> error + bool" where
  "in_date_range isoparse item =
     bindE (py_get item ''content'' JNull) (\<lambda>issue.
       if \<not> truthy issue then Inr False
       else bindE (py_get issue ''closedAt'' JNull) (\<lambda>c.
         if \<not> truthy c then Inr False
         else bindE (py_getitem issue ''closedAt'') (\<lambda>c2.
           bindE (isoparse c2) (\<lambda>closed.
             Inr (str_le START_DATE (isoformat closed) \<and> str_le (isoformat closed) END_DATE)))))"

text \<open>\<^verbatim>\<open>issue["parent"][key] if issue.get("parent") else ""\<close>\<close>

definition parent_field :: "json \<Rightarrow> string \<Rightarrow> error + json" where
  "parent_field issue key =
     bindE (py_get issue ''parent'' JNull) (\<lambda>p.
       if truthy p then bindE (py_getitem issue ''parent'') (\<lambda>p2. py_getitem p2 key)
       else Inr (JStr []))"

text \<open>The \<^verbatim>\<open>issue_dict\<close> of \<^verbatim>\<open>team_metrics.py\<close>, one field per key.\<close>

record issue_row =
  i_project :: json
  i_scope :: json
  i_type :: json
  i_repo :: json
  i_number :: json
  i_title :: json
  i_state :: json
  i_closedAt :: json
  i_parent_number :: json
  i_parent_title :: json
  i_assignees :: "json list"

definition build_issue :: "json \<Rightarrow> json \<Rightarrow> error + issue_row" where
  "build_issue project_title item =
     bindE (py_get item ''content'' JNull) (\<lambda>issue.
     bindE (extract_type item) (\<lambda>tipo.
     bindE (extract_scope item) (\<lambda>scope.
     bindE (extract_assignees item) (\<lambda>assignees.
     bindE (py_path issue [''repository'', ''nameWithOwner'']) (\<lambda>repo.
     bindE (py_getitem issue ''number'') (\<lambda>number.
     bindE (py_getitem issue ''title'') (\<lambda>title.
     bindE (py_getitem issue ''state'') (\<lambda>state.
     bindE (py_getitem issue ''closedAt'') (\<lambda>closed_at.
     bindE (parent_field issue ''number'') (\<lambda>parent_number.
     bindE (parent_field issue ''title'') (\<lambda>parent_title.
       Inr \<lparr>i_project = project_title, i_scope = scope, i_type = tipo, i_repo = repo,
            i_number = number, i_title = title, i_state = state, i_closedAt = closed_at,
            i_parent_number = parent_number, i_parent_title = parent_title,
            i_assignees = assignees\<rparr>)))))))))))"

fun filter_issues :: "isoparser \<Rightarrow> json \<Rightarrow> json list \<Rightarrow> error + issue_row list" where
  "filter_issues isoparse project_title [] = Inr []"
| "filter_issues isoparse project_title (item # items) =
     bindE (in_date_range isoparse item) (\<lambda>keep.
       if \<not> keep then filter_issues isoparse project_title items
       else bindE (build_issue project_title item) (\<lambda>row.
         bindE (filter_issues isoparse project_title items) (\<lambda>rows. Inr (row # rows))))"

subsection \<open>Dictionaries that create their entries\<close>

text \<open>
  \<^verbatim>\<open>d[k] = f(d[k])\<close> on a \<^verbatim>\<open>defaultdict\<close> (or a \<^verbatim>\<open>Counter\<close>) whose missing entries start as
  \<open>d0\<close>. The dictionary keeps its keys in the order of their first insertion, which is the
  order the report loops over. Keys are compared with HOL's equality, which is Python's
  on strings.
\<close>

fun dd_update :: "'k \<Rightarrow> ('v \<Rightarrow> 'v) \<Rightarrow> 'v \<Rightarrow> ('k \<times> 'v) list \<Rightarrow> ('k \<times> 'v) list" where
  "dd_update k f d0 [] = [(k, f d0)]"
| "dd_update k f d0 ((k', v) # rest) =
     (if k = k' then (k', f v) # rest else (k', v) # dd_update k f d0 rest)"

text \<open>\<^verbatim>\<open>Counter(xs)\<close>\<close>

definition Counter :: "'k list \<Rightarrow> ('k \<times> nat) list" where
  "Counter xs = foldl (\<lambda>d k. dd_update k Suc 0 d) [] xs"

text \<open>\<^verbatim>\<open>100.0 * count / total if total else 0\<close>, in exact arithmetic.\<close>

definition percentage :: "nat \<Rightarrow> nat \<Rightarrow> rat" where
  "percentage cnt tot = (if tot \<noteq> 0 then 100 * of_nat cnt / of_nat tot else 0)"

subsection \<open>\<^verbatim>\<open>team_metrics.py\<close>: the report by type\<close>

text \<open>\<^verbatim>\<open>for i in filtered_issues: type_to_issues[i["type"]].append(i)\<close>\<close>

definition type_to_issues :: "issue_row list \<Rightarrow> (json \<times> issue_row list) list" where
  "type_to_issues filtered_issues =
     foldl (\<lambda>d i. dd_update (i_type i) (\<lambda>l. l @ [i]) [] d) [] filtered_issues"

text \<open>
  One line of the report per type: the type, its count, its percentage of
  \<^verbatim>\<open>total_issues\<close> and the number of distinct assignees.
\<close>

definition type_report :: "issue_row list \<Rightarrow> (json \<times> nat \<times> rat \<times> nat) list" where
  "type_report filtered_issues =
     map (\<lambda>(t, issues).
            (t, length issues, percentage (length issues) (length filtered_issues),
             length (remdups (concat (map i_assignees issues)))))
         (type_to_issues filtered_issues)"

subsection \<open>\<^verbatim>\<open>capitalizacao.py\<close>: the report by month and scope\<close>

definition FILTER_MONTHS :: "string list" where "FILTER_MONTHS = [''2025-09'']"

text \<open>\<^verbatim>\<open>f"{closed.year}-{closed.month:02d}"\<close>\<close>

definition closed_month :: "datetime \<Rightarrow> string" where
  "closed_month dt = str_nat (dt_year dt) @ ''-'' @ zero_pad 2 (dt_month dt)"

text \<open>The \<^verbatim>\<open>issue_dict\<close> of \<^verbatim>\<open>capitalizacao.py\<close>: it has a month and no assignees.\<close>

record month_row =
  m_project :: json
  m_month :: string
  m_scope :: json
  m_type :: json
  m_repo :: json
  m_number :: json
  m_title :: json
  m_state :: json
  m_closedAt :: json
  m_parent_number :: json
  m_parent_title :: json

text \<open>
  The body of the loop over the items: \<open>None\<close> is \<^verbatim>\<open>continue\<close>, \<open>Some row\<close> is the
  \<^verbatim>\<open>issue_dict\<close> that is appended under its month and scope.
\<close>

definition month_issue :: "isoparser \<Rightarrow> json \<Rightarrow> json \<Rightarrow> error + month_row option" where
  "month_issue isoparse project_title item =
     bindE (py_get item ''content'' JNull) (\<lambda>issue.
       if \<not> truthy issue then Inr None
       else bindE (py_get issue ''closedAt'' JNull) (\<lambda>c.
         if \<not> truthy c then Inr None
         else bindE (py_getitem issue ''closedAt'') (\<lambda>c2.
           bindE (isoparse c2) (\<lambda>closed.
             if closed_month closed \<notin> set FILTER_MONTHS then Inr None
             else
               bindE (extract_type item) (\<lambda>tipo.
               bindE (extract_scope item) (\<lambda>scope.
               bindE (py_path issue [''repository'', ''nameWithOwner'']) (\<lambda>repo.
               bindE (py_getitem issue ''number'') (\<lambda>number.
               bindE (py_getitem issue ''title'') (\<lambda>title.
               bindE (py_getitem issue ''state'') (\<lambda>state.
               bindE (py_getitem issue ''closedAt'') (\<lambda>closed_at.
               bindE (parent_field issue ''number'') (\<lambda>parent_number.
               bindE (parent_field issue ''title'') (\<lambda>parent_title.
                 Inr (Some \<lparr>m_project = project_title, m_month = closed_month closed,
                            m_scope = scope, m_type = tipo, m_repo = repo, m_number = number,
                            m_title = title, m_state = state, m_closedAt = closed_at,
                            m_parent_number = parent_number,
                            m_parent_title = parent_title\<rparr>))))))))))))))"

fun month_issues :: "isoparser \<Rightarrow> json \<Rightarrow> json list \<Rightarrow> error + month_row list" where
  "month_issues isoparse project_title [] = Inr []"
| "month_issues isoparse project_title (item # items) =
     bindE (month_issue isoparse project_title item) (\<lambda>r.
       bindE (month_issues isoparse project_title items) (\<lambda>rows.
         Inr (case r of None \<Rightarrow> rows | Some row \<Rightarrow> row # rows)))"

text \<open>\<^verbatim>\<open>month_scope_issues[closed_month][scope].append(issue_dict)\<close>, for every row in turn.\<close>

definition month_scope_issues ::
  "month_row list \<Rightarrow> (string \<times> (json \<times> month_row list) list) list" where
  "month_scope_issues rows =
     foldl (\<lambda>d r. dd_update (m_month r) (dd_update (m_scope r) (\<lambda>l. l @ [r]) []) [] d) [] rows"

text \<open>
  The summary of one (month, scope) group: \<^verbatim>\<open>total\<close>, and for every type of
  \<^verbatim>\<open>Counter([i["type"] for i in issues])\<close> its count and percentage.
\<close>

definition scope_summary :: "month_row list \<Rightarrow> nat \<times> (json \<times> nat \<times> rat) list" where
  "scope_summary issues =
     (length issues,
      map (\<lambda>(t, cnt). (t, cnt, percentage cnt (length issues)))
          (Counter (map m_type issues)))"

text \<open>
  Rows for running the reports on fixed data: an issue closed in September 2025 under the
  scope "Core", of a given type, and the same issue as \<^verbatim>\<open>team_metrics.py\<close> records it,
  with its assignees.
\<close>

definition september_row :: "json \<Rightarrow> month_row" where
  "september_row t =
     \<lparr>m_project = JStr ''Board'', m_month = ''2025-09'', m_scope = JStr ''Core'', m_type = t,
      m_repo = JStr ''org/repo'', m_number = JNum 1, m_title = JStr ''t'', m_state = JStr ''CLOSED'',
      m_closedAt = JStr ''2025-09-15T10:00:00Z'', m_parent_number = JStr [],
      m_parent_title = JStr []\<rparr>"

definition typed_row :: "json \<Rightarrow> json list \<Rightarrow> issue_row" where
  "typed_row t assignees =
     \<lparr>i_project = JStr ''Board'', i_scope = JStr ''Core'', i_type = t,
      i_repo = JStr ''org/repo'', i_number = JNum 1, i_title = JStr ''t'', i_state = JStr ''CLOSED'',
      i_closedAt = JStr ''2025-10-15T10:00:00Z'', i_parent_number = JStr [],
      i_parent_title = JStr [], i_assignees = assignees\<rparr>"

section \<open>Basic facts\<close>

lemma lower_KIND: "lower KIND_FIELD = ''kind''" by code_simp
lemma lower_TYPE: "lower TYPE_FIELD = ''type''" by code_simp
lemma lower_SCOPE: "lower SCOPE_FIELD = ''scope''" by code_simp

lemma contains_obj: "py_contains k (JObj kvs) = Inr (map_of kvs k \<noteq> None)"
  by (simp add: map_of_eq_None_iff)

lemma key_in_iff: "k \<in> fst ` set kvs \<longleftrightarrow> map_of kvs k \<noteq> None"
  by (simp add: map_of_eq_None_iff)

lemma bindE_Inr [simp]: "bindE (Inr v) f = f v" by (simp add: bindE_def)
lemma bindE_Inl [simp]: "bindE (Inl e) f = Inl e" by (simp add: bindE_def)

lemma str_nat_nonempty: "str_nat n \<noteq> []"
  by (subst str_nat.simps) simp

lemma str_int_nonempty: "str_int i \<noteq> []"
  by (simp add: str_int_def str_nat_nonempty)

section \<open>The extractors on well-formed items\<close>

lemmas wf_node_defs = wf_field_value_def opt_key_def wf_field_ref_def is_str_def is_num_def

lemma field_value_wf:
  assumes "wf_field_value (JObj kvs)"
  shows "\<exists>v. field_value (JObj kvs) = Inr v \<and> (\<not> truthy v \<or> (\<exists>s. v = JStr s \<and> s \<noteq> []))"
  using assms
  by (auto simp: wf_node_defs field_value_def contains_obj py_str_def str_int_nonempty
      simp del: py_contains.simps split: json.splits option.splits)


lemma skip_field_wf:
  assumes "wf_field_value fv"
  shows "skip_field fv = Inr True \<or>
         (skip_field fv = Inr False \<and> (\<exists>kvs. fv = JObj kvs) \<and> (\<exists>n. field_name fv = Inr n))"
proof (cases fv)
  case (JObj kvs)
  show ?thesis
  proof (cases "map_of kvs ''field''")
    case None
    then show ?thesis using JObj by (simp add: skip_field_def contains_obj del: py_contains.simps)
  next
    case (Some f)
    have f: "f = JNull \<or> wf_field_ref f"
      using assms JObj Some by (simp add: wf_field_value_def opt_key_def)
    show ?thesis
    proof (cases "truthy f")
      case False
      then show ?thesis using JObj Some
        by (simp add: skip_field_def contains_obj del: py_contains.simps)
    next
      case True
      with f have "wf_field_ref f" by auto
      then obtain fkvs where fk: "f = JObj fkvs"
        by (auto simp: wf_field_ref_def split: json.splits)
      have "\<exists>n. field_name fv = Inr n"
        using \<open>wf_field_ref f\<close> JObj Some fk
        by (auto simp: field_name_def wf_field_ref_def is_str_def split: option.splits json.splits)
      moreover have "skip_field fv = Inr False \<or> skip_field fv = Inr True"
        using JObj Some True by (simp add: skip_field_def contains_obj del: py_contains.simps)
      ultimately show ?thesis using JObj by auto
    qed
  qed
qed (use assms in \<open>simp_all add: wf_field_value_def skip_field_def\<close>)

lemma entry_cases:
  assumes "wf_field_value fv"
  obtains (skipped) "entry fv = None" "type_step fv st = Inr st" "scope_step fv = Inr None"
  | (populated) n s where "entry fv = Some (n, JStr s)" "s \<noteq> []"
      "type_step fv st = Inr (if n = ''kind'' then (JStr s, snd st)
                              else if n = ''type'' then (fst st, JStr s) else st)"
      "scope_step fv = Inr (if n = ''scope'' then Some (JStr s) else None)"
proof -
  from skip_field_wf [OF assms] show thesis
  proof
    assume "skip_field fv = Inr True"
    then show thesis
      by (intro skipped) (simp_all add: entry_def type_step_def scope_step_def)
  next
    assume a: "skip_field fv = Inr False \<and> (\<exists>kvs. fv = JObj kvs) \<and> (\<exists>n. field_name fv = Inr n)"
    then obtain kvs n where sk: "skip_field fv = Inr False" and fv: "fv = JObj kvs"
      and n: "field_name fv = Inr n" by auto
    from field_value_wf [of kvs] assms fv obtain v where
      v: "field_value fv = Inr v" and vs: "\<not> truthy v \<or> (\<exists>s. v = JStr s \<and> s \<noteq> [])" by auto
    show thesis
    proof (cases "truthy v")
      case False
      then show thesis using sk n v
        by (intro skipped) (simp_all add: entry_def type_step_def scope_step_def)
    next
      case True
      with vs obtain s where s: "v = JStr s" "s \<noteq> []" by auto
      show thesis
        using sk n v s
        by (intro populated [of n s])
           (simp_all add: entry_def type_step_def scope_step_def lower_KIND lower_TYPE lower_SCOPE)
    qed
  qed
qed



lemma scope_loop_wf:
  "list_all wf_field_value l \<Longrightarrow>
   scope_loop l =
     Inr (case map snd (filter (\<lambda>e. fst e = ''scope'') (List.map_filter entry l)) of
            [] \<Rightarrow> None | v # _ \<Rightarrow> Some v)"
proof (induction l)
  case Nil
  then show ?case by (simp add: map_filter_simps)
next
  case (Cons fv l)
  then have wf: "wf_field_value fv" and rest: "list_all wf_field_value l" by simp_all
  from wf show ?case
  proof (cases rule: entry_cases [where st = "(JNull, JNull)"])
    case skipped
    then show ?thesis using Cons.IH [OF rest] by (simp add: map_filter_simps)
  next
    case (populated n s)
    then show ?thesis using Cons.IH [OF rest] by (simp add: map_filter_simps)
  qed
qed

lemma entries_wf_value:
  "list_all wf_field_value l \<Longrightarrow> (n, v) \<in> set (List.map_filter entry l) \<Longrightarrow>
   \<exists>s. v = JStr s \<and> s \<noteq> []"
proof (induction l)
  case Nil
  then show ?case by (simp add: map_filter_simps)
next
  case (Cons fv l)
  then have wf: "wf_field_value fv" and rest: "list_all wf_field_value l" by simp_all
  from wf show ?case
  proof (cases rule: entry_cases [where st = "(JNull, JNull)"])
    case skipped
    then show ?thesis using Cons.IH [OF rest] Cons.prems(2) by (simp add: map_filter_simps)
  next
    case (populated n' s)
    then show ?thesis using Cons.IH [OF rest] Cons.prems(2) by (auto simp add: map_filter_simps)
  qed
qed

lemma field_nodes_wf:
  assumes "wf_fields item"
  shows "field_nodes item = Inr None \<or>
         (\<exists>l. field_nodes item = Inr (Some l) \<and> list_all wf_field_value l)"
proof -
  from assms obtain kvs where item: "item = JObj kvs"
    by (auto simp: wf_fields_def split: json.splits)
  show ?thesis
  proof (cases "map_of kvs ''fieldValues''")
    case None
    then show ?thesis using item
      by (simp add: field_nodes_def contains_obj del: py_contains.simps)
  next
    case (Some fv)
    with assms item obtain fkvs where fv: "fv = JObj fkvs"
      by (auto simp: wf_fields_def split: json.splits)
    show ?thesis
    proof (cases "map_of fkvs ''nodes''")
      case None
      then show ?thesis using item Some fv
        by (simp add: field_nodes_def contains_obj del: py_contains.simps)
    next
      case (Some ns)
      with assms item \<open>map_of kvs ''fieldValues'' = Some fv\<close> fv
      obtain l where "ns = JArr l" "list_all wf_field_value l"
        by (auto simp: wf_fields_def split: json.splits)
      then show ?thesis using item Some fv \<open>map_of kvs ''fieldValues'' = Some fv\<close>
        by (simp add: field_nodes_def contains_obj del: py_contains.simps)
    qed
  qed
qed

lemma values_named_wf:
  assumes "wf_fields item" and "v \<in> set (values_named n item)"
  shows "\<exists>s. v = JStr s \<and> s \<noteq> []"
proof -
  from field_nodes_wf [OF assms(1)] show ?thesis
  proof
    assume "field_nodes item = Inr None"
    with assms(2) show ?thesis by (simp add: values_named_def item_entries_def)
  next
    assume "\<exists>l. field_nodes item = Inr (Some l) \<and> list_all wf_field_value l"
    then obtain l where l: "field_nodes item = Inr (Some l)" "list_all wf_field_value l" by auto
    with assms(2) have "(n, v) \<in> set (List.map_filter entry l)"
      by (auto simp: values_named_def item_entries_def)
    with entries_wf_value l(2) show ?thesis by blast
  qed
qed

lemma extract_scope_wf:
  assumes "wf_fields item"
  shows "extract_scope item =
           Inr (case values_named ''scope'' item of [] \<Rightarrow> JStr ''Sem Scope'' | v # _ \<Rightarrow> v)"
proof -
  from field_nodes_wf [OF assms] show ?thesis
  proof
    assume "field_nodes item = Inr None"
    then show ?thesis by (simp add: extract_scope_def values_named_def item_entries_def)
  next
    assume "\<exists>l. field_nodes item = Inr (Some l) \<and> list_all wf_field_value l"
    then obtain l where l: "field_nodes item = Inr (Some l)" "list_all wf_field_value l" by auto
    show ?thesis
      using l(1) scope_loop_wf [OF l(2)]
      by (simp add: extract_scope_def values_named_def item_entries_def split: list.splits)
  qed
qed








lemma named_node_access:
  "k \<noteq> ''field'' \<Longrightarrow> py_getitem (named_node n shape) k = py_getitem (JObj shape) k"
  "k \<noteq> ''field'' \<Longrightarrow> py_get (named_node n shape) k d = py_get (JObj shape) k d"
  "k \<noteq> ''field'' \<Longrightarrow> py_contains k (named_node n shape) = py_contains k (JObj shape)"
  by (auto simp: named_node_def)

lemma named_node_steps:
  "skip_field (named_node n shape) = Inr False"
  "field_name (named_node n shape) = Inr (lower (strip n))"
  "field_value (named_node n shape) = field_value (JObj shape)"
proof -
  show "skip_field (named_node n shape) = Inr False"
    by (simp add: skip_field_def named_node_def)
  show "field_name (named_node n shape) = Inr (lower (strip n))"
    by (simp add: field_name_def named_node_def)
  show "field_value (named_node n shape) = field_value (JObj shape)"
    unfolding field_value_def by (simp only: named_node_access list.inject char.inject simp_thms)
qed

section \<open>The URL pattern\<close>
















section \<open>The fetch loop\<close>

lemma fetch_loop_last:
  "fetch_page post pid c = Inr (nodes, None) \<Longrightarrow>
   fetch_loop post pid acc c = Some (Inr (acc @ nodes))"
  by (subst fetch_loop.simps) simp

lemma fetch_loop_more:
  "fetch_page post pid c = Inr (nodes, Some c') \<Longrightarrow>
   fetch_loop post pid acc c = fetch_loop post pid (acc @ nodes) c'"
  by (subst fetch_loop.simps) simp

lemma fetch_loop_error:
  "fetch_page post pid c = Inl e \<Longrightarrow> fetch_loop post pid acc c = Some (Inl e)"
  by (subst fetch_loop.simps) simp

lemma fetch_loop_serves:
  "serves post pid c pages \<Longrightarrow>
   fetch_loop post pid acc c = Some (Inr (acc @ concat (map fst pages)))"
proof (induction post pid c pages arbitrary: acc rule: serves.induct)
  case (1 post pid c)
  then show ?case by simp
next
  case (2 post pid c nodes c')
  then show ?case by (simp add: fetch_loop_last)
next
  case (3 post pid c nodes c' p ps)
  then have page: "fetch_page post pid c = Inr (nodes, Some c')"
    and rest: "serves post pid c' (p # ps)" by simp_all
  show ?case
    using "3.IH" [OF rest, of "acc @ nodes"] by (simp add: fetch_loop_more [OF page])
qed

lemma fetch_loop_returns_not_endless:
  assumes "fetch_loop post pid acc c = Some r"
  shows "\<not> endless post pid"
proof (rule fetch_loop.raw_induct [where P = "\<lambda>post pid acc c r. \<not> endless post pid", OF _ assms])
  fix f :: "transport \<Rightarrow> json \<Rightarrow> json list \<Rightarrow> json \<Rightarrow> (error + json list) option"
    and post pid results cursor r
  assume ih: "\<And>post' pid' acc' c' y. f post' pid' acc' c' = Some y \<Longrightarrow> \<not> endless post' pid'"
  assume step: "(case fetch_page post pid cursor of
        Inl e \<Rightarrow> Some (Inl e)
      | Inr (nodes, None) \<Rightarrow> Some (Inr (results @ nodes))
      | Inr (nodes, Some c) \<Rightarrow> f post pid (results @ nodes) c) = Some r"
  show "\<not> endless post pid"
  proof
    assume e: "endless post pid"
    then obtain nodes c' where "fetch_page post pid cursor = Inr (nodes, Some c')"
      unfolding endless_def by blast
    with step have "f post pid (results @ nodes) c' = Some r" by simp
    from ih [OF this] e show False by simp
  qed
qed

lemma fetch_loop_endless:
  "endless post pid \<Longrightarrow> fetch_loop post pid acc c = None"
  using fetch_loop_returns_not_endless [of post pid acc c] by (cases "fetch_loop post pid acc c") auto

section \<open>Grouping with dictionaries\<close>

lemma dd_update_map_of:
  "map_of (dd_update k f d0 d) k' =
     (if k' = k then Some (f (case map_of d k of None \<Rightarrow> d0 | Some v \<Rightarrow> v)) else map_of d k')"
  by (induction d) auto

lemma dd_update_keys:
  "set (map fst (dd_update k f d0 d)) = insert k (set (map fst d))"
  by (induction k f d0 d rule: dd_update.induct) auto

lemma dd_update_distinct:
  "distinct (map fst d) \<Longrightarrow> distinct (map fst (dd_update k f d0 d))"
proof (induction d)
  case Nil
  then show ?case by simp
next
  case (Cons kv d)
  obtain k' v where kv: "kv = (k', v)" by (cases kv)
  with Cons have "k' \<notin> set (map fst d)" and ih: "distinct (map fst (dd_update k f d0 d))"
    by simp_all
  then have "k \<noteq> k' \<Longrightarrow> k' \<notin> set (map fst (dd_update k f d0 d))"
    unfolding dd_update_keys by simp
  with Cons.prems kv ih show ?case by simp
qed

lemma dd_update_sum:
  assumes "\<And>v. g (f v) = Suc (g v)" and "g d0 = 0"
  shows "sum_list (map (\<lambda>kv. g (snd kv)) (dd_update k f d0 d)) =
           Suc (sum_list (map (\<lambda>kv. g (snd kv)) d))"
  by (induction d) (auto simp: assms)

text \<open>
  A dictionary filled by one update per element: under each key stands what the updates
  of the elements with that key, in their order, make of the initial value.
\<close>

lemma dd_fold_snoc:
  "foldl (\<lambda>d x. dd_update (key x) (step x) d0 d) [] (xs @ [x]) =
     dd_update (key x) (step x) d0 (foldl (\<lambda>d x. dd_update (key x) (step x) d0 d) [] xs)"
  by simp

lemma dd_fold_map_of:
  "map_of (foldl (\<lambda>d x. dd_update (key x) (step x) d0 d) [] xs) k =
     (if k \<in> key ` set xs
      then Some (foldl (\<lambda>v x. step x v) d0 (filter (\<lambda>x. key x = k) xs))
      else None)"
proof (induction xs arbitrary: k rule: rev_induct)
  case Nil
  then show ?case by simp
next
  case (snoc x xs)
  show ?case
  proof (cases "k = key x")
    case True
    have "filter (\<lambda>y. key y = key x) xs = []" if "key x \<notin> key ` set xs"
      using that by (metis (mono_tags, lifting) filter_False image_eqI)
    then show ?thesis
      unfolding dd_fold_snoc dd_update_map_of snoc.IH [of "key x"] using True
      by (cases "key x \<in> key ` set xs") simp_all
  next
    case False
    then show ?thesis
      unfolding dd_fold_snoc dd_update_map_of snoc.IH [of k] by auto
  qed
qed

lemma dd_fold_distinct:
  "distinct (map fst (foldl (\<lambda>d x. dd_update (key x) (step x) d0 d) [] xs))"
proof (induction xs rule: rev_induct)
  case Nil
  then show ?case by simp
next
  case (snoc x xs)
  then show ?case unfolding dd_fold_snoc by (rule dd_update_distinct)
qed

lemma dd_fold_entry:
  assumes "(k, v) \<in> set (foldl (\<lambda>d x. dd_update (key x) (step x) d0 d) [] xs)"
  shows "k \<in> key ` set xs \<and> v = foldl (\<lambda>v x. step x v) d0 (filter (\<lambda>x. key x = k) xs)"
proof -
  from assms dd_fold_distinct [of key step d0 xs]
  have "map_of (foldl (\<lambda>d x. dd_update (key x) (step x) d0 d) [] xs) k = Some v"
    by (rule map_of_is_SomeI [rotated])
  then show ?thesis
    unfolding dd_fold_map_of by (auto split: if_splits)
qed

lemma dd_fold_sum:
  assumes "\<And>x v. g (step x v) = Suc (g v)" and "g d0 = 0"
  shows "sum_list (map (\<lambda>kv. g (snd kv)) (foldl (\<lambda>d x. dd_update (key x) (step x) d0 d) [] xs))
           = length xs"
proof (induction xs rule: rev_induct)
  case Nil
  then show ?case by simp
next
  case (snoc x xs)
  have "sum_list (map (\<lambda>kv. g (snd kv))
          (dd_update (key x) (step x) d0 (foldl (\<lambda>d x. dd_update (key x) (step x) d0 d) [] xs)))
        = Suc (sum_list (map (\<lambda>kv. g (snd kv)) (foldl (\<lambda>d x. dd_update (key x) (step x) d0 d) [] xs)))"
    by (rule dd_update_sum [of g, OF assms])
  then show ?case
    unfolding dd_fold_snoc using snoc.IH by simp
qed

lemma foldl_append_one: "foldl (\<lambda>l x. l @ [x]) acc ys = acc @ ys"
  by (induction ys arbitrary: acc) simp_all

lemma foldl_Suc: "foldl (\<lambda>n x. Suc n) acc ys = acc + length ys"
  by (induction ys arbitrary: acc) simp_all

subsection \<open>\<^verbatim>\<open>Counter\<close> and the percentages\<close>

lemma Counter_entry:
  "(t, c) \<in> set (Counter ks) \<Longrightarrow> t \<in> set ks \<and> c = length (filter (\<lambda>k. k = t) ks)"
  unfolding Counter_def
  using dd_fold_entry [of t c "\<lambda>k. k" "\<lambda>k. Suc" 0 ks] by (simp add: foldl_Suc)

lemma Counter_distinct: "distinct (map fst (Counter ks))"
  unfolding Counter_def by (rule dd_fold_distinct [of "\<lambda>k. k" "\<lambda>k. Suc" 0])

lemma Counter_sum: "sum_list (map snd (Counter ks)) = length ks"
  unfolding Counter_def
  using dd_fold_sum [of "\<lambda>n. n" "\<lambda>k. Suc" 0 "\<lambda>k. k" ks] by simp

lemma percentage_sum:
  "sum_list (map (\<lambda>c. percentage c n) cs) = percentage (sum_list cs) n"
  by (induction cs) (simp_all add: percentage_def add_divide_distrib distrib_left)

lemma percentage_whole: "n \<noteq> 0 \<Longrightarrow> percentage n n = 100"
  by (simp add: percentage_def)

subsection \<open>The groups of the two reports\<close>

lemma type_to_issues_entry:
  "(t, issues) \<in> set (type_to_issues rows) \<Longrightarrow>
   t \<in> i_type ` set rows \<and> issues = filter (\<lambda>i. i_type i = t) rows"
  unfolding type_to_issues_def
  using dd_fold_entry [of t issues i_type "\<lambda>i l. l @ [i]" "[]" rows]
  by (simp add: foldl_append_one)

lemma type_to_issues_sum:
  "sum_list (map (\<lambda>kv. length (snd kv)) (type_to_issues rows)) = length rows"
  unfolding type_to_issues_def
  by (rule dd_fold_sum [of length "\<lambda>i l. l @ [i]" "[]"]) simp_all

lemma scope_groups_sum:
  "sum_list (map (\<lambda>kv. length (snd kv))
      (dd_update (m_scope r) (\<lambda>l. l @ [r]) [] scopes)) =
   Suc (sum_list (map (\<lambda>kv. length (snd kv)) scopes))"
  by (rule dd_update_sum [of length]) simp_all

lemma month_scope_issues_entry:
  assumes "(m, scopes) \<in> set (month_scope_issues rows)" and "(s, issues) \<in> set scopes"
  shows "issues = filter (\<lambda>r. m_month r = m \<and> m_scope r = s) rows \<and> issues \<noteq> []"
proof -
  let ?in_month = "filter (\<lambda>r. m_month r = m) rows"
  from assms(1)
  have "scopes = foldl (\<lambda>v r. dd_update (m_scope r) (\<lambda>l. l @ [r]) [] v) [] ?in_month"
    unfolding month_scope_issues_def
    using dd_fold_entry [of m scopes m_month "\<lambda>r. dd_update (m_scope r) (\<lambda>l. l @ [r]) []" "[]" rows]
    by simp
  with assms(2)
  have "s \<in> m_scope ` set ?in_month \<and> issues = filter (\<lambda>r. m_scope r = s) ?in_month"
    using dd_fold_entry [of s issues m_scope "\<lambda>r l. l @ [r]" "[]" ?in_month]
    by (simp add: foldl_append_one)
  then have a: "issues = filter (\<lambda>r. m_scope r = s) ?in_month"
    and b: "filter (\<lambda>r. m_scope r = s) ?in_month \<noteq> []"
    by (auto simp: filter_empty_conv)
  have "filter (\<lambda>r. m_scope r = s) ?in_month = filter (\<lambda>r. m_month r = m \<and> m_scope r = s) rows"
    by (simp add: conj_commute)
  with a b show ?thesis by simp
qed

lemma month_scope_issues_sum:
  "sum_list (map (\<lambda>kv. sum_list (map (\<lambda>kv. length (snd kv)) (snd kv)))
      (month_scope_issues rows)) = length rows"
  unfolding month_scope_issues_def
  by (rule dd_fold_sum [of "\<lambda>scopes. sum_list (map (\<lambda>kv. length (snd kv)) scopes)"
        "\<lambda>r. dd_update (m_scope r) (\<lambda>l. l @ [r]) []" "[]"])
     (simp_all add: scope_groups_sum)

section \<open>Fixed-width dates: string order is calendar order\<close>



















section \<open>Claims about the field extractors\<close>









text \<open>
  C5. \<^verbatim>\<open>extract_scope\<close> is total on items with well-formed field values: it raises nothing
  and returns a non-empty string. Entries that are \<^verbatim>\<open>null\<close>, that are the empty dict, that
  have no \<^verbatim>\<open>field\<close>, that carry none of the three value shapes, or whose values are all
  empty or \<^verbatim>\<open>null\<close>, are passed over: the scan goes on with the rest of the list. The
  function reads nothing but its argument, so its result for one item is the same at every
  call; in the embedding this is the fact that \<open>extract_scope\<close> is a function of the item.
\<close>

theorem extract_scope_total:
  assumes "wf_fields item"
  shows "(\<exists>s. extract_scope item = Inr (JStr s) \<and> s \<noteq> []) \<and>
         (\<forall>rest. scope_loop (JNull # rest) = scope_loop rest) \<and>
         (\<forall>rest. scope_loop (JObj [] # rest) = scope_loop rest) \<and>
         (\<forall>rest v. scope_loop (JObj [(''name'', JStr v)] # rest) = scope_loop rest) \<and>
         (\<forall>rest n. scope_loop (named_node n [] # rest) = scope_loop rest) \<and>
         (\<forall>rest n. scope_loop (named_node n [(''name'', JStr []), (''text'', JStr []),
                                    (''number'', JNull)] # rest) = scope_loop rest)"
proof (intro conjI allI)
  show "\<exists>s. extract_scope item = Inr (JStr s) \<and> s \<noteq> []"
  proof (cases "values_named ''scope'' item")
    case Nil
    then show ?thesis using assms by (simp add: extract_scope_wf)
  next
    case (Cons v vs)
    then have "v \<in> set (values_named ''scope'' item)" by simp
    with values_named_wf [OF assms] obtain s where "v = JStr s" "s \<noteq> []" by blast
    then show ?thesis using assms Cons by (simp add: extract_scope_wf)
  qed
next
  fix rest show "scope_loop (JNull # rest) = scope_loop rest"
    by (simp add: scope_step_def skip_field_def)
next
  fix rest show "scope_loop (JObj [] # rest) = scope_loop rest"
    by (simp add: scope_step_def skip_field_def)
next
  fix rest v show "scope_loop (JObj [(''name'', JStr v)] # rest) = scope_loop rest"
    by (simp add: scope_step_def skip_field_def)
next
  fix rest n
  have "field_value (named_node n []) = Inr JNull"
    unfolding named_node_steps by (simp add: field_value_def)
  then show "scope_loop (named_node n [] # rest) = scope_loop rest"
    by (simp add: scope_step_def named_node_steps(1,2))
next
  fix rest n
  have "field_value (named_node n [(''name'', JStr []), (''text'', JStr []), (''number'', JNull)])
          = Inr JNull"
    unfolding named_node_steps by (simp add: field_value_def)
  then show "scope_loop (named_node n [(''name'', JStr []), (''text'', JStr []),
                                    (''number'', JNull)] # rest) = scope_loop rest"
    by (simp add: scope_step_def named_node_steps(1,2))
qed

theorem extract_scope_total_witness:
  "\<exists>s. extract_scope (project_item JNull
       [JNull, JObj [], named_node ''Kind'' [(''name'', JStr ''Bug'')],
        named_node '' scope'' [(''text'', JStr ''Core'')]]) = Inr (JStr s) \<and> s \<noteq> []"
proof -
  let ?i = "project_item JNull
       [JNull, JObj [], named_node ''Kind'' [(''name'', JStr ''Bug'')],
        named_node '' scope'' [(''text'', JStr ''Core'')]]"
  have wf: "wf_fields ?i" by code_simp
  show ?thesis using extract_scope_total [OF wf] by blast
qed



section \<open>Claims about the client, the resolver and the fetcher\<close>

text \<open>
  C3, as stated, fails on the value returned: for a 200 response whose body is
  \<^verbatim>\<open>{"data": {"viewer": "x"}}\<close>, \<^verbatim>\<open>run_query\<close> returns the whole decoded body, not the
  value under \<^verbatim>\<open>"data"\<close>. (\<^verbatim>\<open>return data\<close> returns \<^verbatim>\<open>response.json()\<close>; the callers index
  \<^verbatim>\<open>data["data"]\<close> themselves.)
\<close>

theorem run_query_payload_counterexample:
  "run_query
     (\<lambda>q v. Inr \<lparr>status_code = 200, response_text = [],
                 response_json = Some (JObj [(''data'', JObj [(''viewer'', JStr ''x'')])])\<rparr>)
     UserProject (JObj [])
     = Inr (JObj [(''data'', JObj [(''viewer'', JStr ''x'')])]) \<and>
   run_query
     (\<lambda>q v. Inr \<lparr>status_code = 200, response_text = [],
                 response_json = Some (JObj [(''data'', JObj [(''viewer'', JStr ''x'')])])\<rparr>)
     UserProject (JObj [])
     \<noteq> Inr (JObj [(''viewer'', JStr ''x'')])"
  by (simp add: run_query_def)

text \<open>
  C3 (amended). For a response that arrived: when the HTTP status is not 200, \<^verbatim>\<open>run_query\<close>
  raises with a message made of the status and the body text; when the status is 200 and
  the body decodes to a JSON object, it raises exactly when the object has a top-level
  \<^verbatim>\<open>"errors"\<close> key (the message carries \<^verbatim>\<open>str\<close> of the errors), and in every other case it
  returns the whole decoded response, the object that holds the \<^verbatim>\<open>"data"\<close> key.
\<close>

theorem run_query_result:
  "(post q variables = Inr r \<and> status_code r \<noteq> 200 \<longrightarrow>
      run_query post q variables =
        Inl (Exception (''Erro na API GitHub: '' @ str_int (status_code r) @ '', '' @ response_text r))) \<and>
   (post q variables = Inr r \<and> status_code r = 200 \<and> response_json r = Some (JObj body) \<longrightarrow>
      run_query post q variables =
        (case map_of body ''errors'' of
           Some errs \<Rightarrow> Inl (Exception (''Erro GraphQL: '' @ py_str errs))
         | None \<Rightarrow> Inr (JObj body))) \<and>
   (post q variables = Inr r \<and> response_json r = Some (JObj body) \<longrightarrow>
      ((\<exists>e. run_query post q variables = Inl e) \<longleftrightarrow>
         status_code r \<noteq> 200 \<or> ''errors'' \<in> fst ` set body))"
proof (intro conjI impI)
  assume "post q variables = Inr r \<and> status_code r \<noteq> 200"
  then show "run_query post q variables =
        Inl (Exception (''Erro na API GitHub: '' @ str_int (status_code r) @ '', '' @ response_text r))"
    by (simp add: run_query_def)
next
  assume "post q variables = Inr r \<and> status_code r = 200 \<and> response_json r = Some (JObj body)"
  then show "run_query post q variables =
        (case map_of body ''errors'' of
           Some errs \<Rightarrow> Inl (Exception (''Erro GraphQL: '' @ py_str errs))
         | None \<Rightarrow> Inr (JObj body))"
    by (cases "map_of body ''errors''")
       (simp_all add: run_query_def contains_obj del: py_contains.simps)
next
  assume a: "post q variables = Inr r \<and> response_json r = Some (JObj body)"
  show "(\<exists>e. run_query post q variables = Inl e) \<longleftrightarrow>
         status_code r \<noteq> 200 \<or> ''errors'' \<in> fst ` set body"
  proof (cases "status_code r = 200")
    case False
    with a show ?thesis by (simp add: run_query_def)
  next
    case True
    with a show ?thesis
      by (cases "map_of body ''errors''")
         (simp_all add: run_query_def contains_obj key_in_iff del: py_contains.simps)
  qed
qed

theorem run_query_result_witness:
  "run_query (\<lambda>q v. Inr \<lparr>status_code = 502, response_text = ''Bad Gateway'', response_json = None\<rparr>)
     ProjectItems (JObj [])
     = Inl (Exception ''Erro na API GitHub: 502, Bad Gateway'') \<and>
   run_query (\<lambda>q v. Inr \<lparr>status_code = 200, response_text = [],
                 response_json = Some (JObj [(''errors'', JArr [JStr ''NOT_FOUND''])])\<rparr>)
     ProjectItems (JObj [])
     = Inl (Exception (''Erro GraphQL: '' @ py_str (JArr [JStr ''NOT_FOUND'']))) \<and>
   run_query (\<lambda>q v. Inr \<lparr>status_code = 200, response_text = [],
                 response_json = Some (JObj [(''data'', JNull)])\<rparr>)
     ProjectItems (JObj [])
     = Inr (JObj [(''data'', JNull)])"
proof -
  let ?r1 = "\<lparr>status_code = 502, response_text = ''Bad Gateway'', response_json = None\<rparr>"
  let ?r2 = "\<lparr>status_code = 200, response_text = [],
                 response_json = Some (JObj [(''errors'', JArr [JStr ''NOT_FOUND''])])\<rparr>"
  let ?r3 = "\<lparr>status_code = 200, response_text = [], response_json = Some (JObj [(''data'', JNull)])\<rparr>"
  have s: "str_int 502 = ''502''" by code_simp
  show ?thesis
    using run_query_result [of "\<lambda>q v. Inr ?r1" ProjectItems "JObj []" ?r1 "[]"]
      run_query_result [of "\<lambda>q v. Inr ?r2" ProjectItems "JObj []" ?r2 "[(''errors'', JArr [JStr ''NOT_FOUND''])]"]
      run_query_result [of "\<lambda>q v. Inr ?r3" ProjectItems "JObj []" ?r3 "[(''data'', JNull)]"]
    by (simp add: s)
qed



text \<open>
  C2. \<^verbatim>\<open>get_project_items\<close> folds the pages into one list. When the server holds a
  sequence of pages, each but the last reported with a true \<^verbatim>\<open>hasNextPage\<close> and the cursor
  of the next, the loop asks for the first page with the cursor \<^verbatim>\<open>None\<close>, follows each
  \<^verbatim>\<open>endCursor\<close>, stops at the first page whose \<^verbatim>\<open>hasNextPage\<close> is false and returns the nodes
  of all pages in order. Two servers whose pages concatenate to the same sequence give the
  same result, wherever the page boundaries lie. A server that never reports a last page
  keeps the loop from returning.
\<close>

theorem get_project_items_fold:
  "(serves post pid JNull pages \<longrightarrow>
      get_project_items post pid = Some (Inr (concat (map fst pages)))) \<and>
   (serves post pid JNull pages \<and> serves post' pid' JNull pages' \<and>
      concat (map fst pages) = concat (map fst pages') \<longrightarrow>
      get_project_items post pid = get_project_items post' pid') \<and>
   (endless post pid \<longrightarrow> get_project_items post pid = None)"
proof (intro conjI impI)
  assume "serves post pid JNull pages"
  from fetch_loop_serves [OF this, of "[]"]
  show "get_project_items post pid = Some (Inr (concat (map fst pages)))"
    by (simp add: get_project_items_def)
next
  assume a: "serves post pid JNull pages \<and> serves post' pid' JNull pages' \<and>
      concat (map fst pages) = concat (map fst pages')"
  from a have s1: "serves post pid JNull pages" and s2: "serves post' pid' JNull pages'"
    by simp_all
  have "fetch_loop post pid [] JNull = Some (Inr ([] @ concat (map fst pages)))"
    and "fetch_loop post' pid' [] JNull = Some (Inr ([] @ concat (map fst pages')))"
    by (rule fetch_loop_serves [OF s1], rule fetch_loop_serves [OF s2])
  with a show "get_project_items post pid = get_project_items post' pid'"
    by (simp add: get_project_items_def)
next
  assume "endless post pid"
  then show "get_project_items post pid = None"
    by (simp add: get_project_items_def fetch_loop_endless)
qed

theorem get_project_items_fold_witness:
  "get_project_items
     (paged_server [[JStr ''a'', JStr ''b''], [JStr ''c'', JStr ''d''], [JStr ''e'']]) (JStr ''PVT_1'')
     = Some (Inr [JStr ''a'', JStr ''b'', JStr ''c'', JStr ''d'', JStr ''e'']) \<and>
   get_project_items
     (paged_server [[JStr ''a'', JStr ''b''], [JStr ''c'', JStr ''d''], [JStr ''e'']]) (JStr ''PVT_1'')
     = get_project_items
         (paged_server [[JStr ''a'', JStr ''b'', JStr ''c''], [JStr ''d'', JStr ''e'']]) (JStr ''PVT_1'') \<and>
   get_project_items
     (\<lambda>q v. Inr (page_response [JStr ''a''] True (JStr ''again''))) (JStr ''PVT_1'') = None"
proof -
  let ?p1 = "[[JStr ''a'', JStr ''b''], [JStr ''c'', JStr ''d''], [JStr ''e'']]"
  let ?p2 = "[[JStr ''a'', JStr ''b'', JStr ''c''], [JStr ''d'', JStr ''e'']]"
  let ?loop = "\<lambda>q v. Inr (page_response [JStr ''a''] True (JStr ''again''))"
  have s1: "serves (paged_server ?p1) (JStr ''PVT_1'') JNull
              [([JStr ''a'', JStr ''b''], JNum 1), ([JStr ''c'', JStr ''d''], JNum 2), ([JStr ''e''], JNum 3)]"
    by (simp add: fetch_page_def run_query_def paged_server_def page_response_def)
  have s2: "serves (paged_server ?p2) (JStr ''PVT_1'') JNull
              [([JStr ''a'', JStr ''b'', JStr ''c''], JNum 1), ([JStr ''d'', JStr ''e''], JNum 2)]"
    by (simp add: fetch_page_def run_query_def paged_server_def page_response_def)
  have e: "endless ?loop (JStr ''PVT_1'')"
    by (simp add: endless_def fetch_page_def run_query_def page_response_def)
  note t1 = get_project_items_fold [of "paged_server ?p1" "JStr ''PVT_1''"
        "[([JStr ''a'', JStr ''b''], JNum 1), ([JStr ''c'', JStr ''d''], JNum 2), ([JStr ''e''], JNum 3)]"
        "paged_server ?p2" "JStr ''PVT_1''"
        "[([JStr ''a'', JStr ''b'', JStr ''c''], JNum 1), ([JStr ''d'', JStr ''e''], JNum 2)]"]
  note t2 = get_project_items_fold [of ?loop "JStr ''PVT_1''" "[]" ?loop "JStr ''PVT_1''" "[]"]
  have a: "get_project_items (paged_server ?p1) (JStr ''PVT_1'')
             = Some (Inr [JStr ''a'', JStr ''b'', JStr ''c'', JStr ''d'', JStr ''e''])"
    using t1 [THEN conjunct1] s1 by simp
  have b: "get_project_items (paged_server ?p1) (JStr ''PVT_1'')
             = get_project_items (paged_server ?p2) (JStr ''PVT_1'')"
    using t1 [THEN conjunct2, THEN conjunct1] s1 s2 by simp
  have c: "get_project_items ?loop (JStr ''PVT_1'') = None"
    using t2 [THEN conjunct2, THEN conjunct2] e by simp
  from a b c show ?thesis by (intro conjI)
qed

section \<open>Claims about the date range of \<^verbatim>\<open>team_metrics.py\<close>\<close>



section \<open>Claims about the reports\<close>

lemma scope_summary_lines:
  "snd (scope_summary issues) =
     map (\<lambda>kv. (fst kv, snd kv, percentage (snd kv) (length issues))) (Counter (map m_type issues))"
  by (simp add: scope_summary_def case_prod_beta)

lemma scope_summary_sums:
  assumes "issues \<noteq> []"
  shows "sum_list (map (\<lambda>(t, c, p). p) (snd (scope_summary issues))) = 100"
    and "sum_list (map (\<lambda>(t, c, p). c) (snd (scope_summary issues))) = length issues"
proof -
  let ?cs = "map snd (Counter (map m_type issues))"
  have "map (\<lambda>(t, c, p). p) (snd (scope_summary issues)) = map (\<lambda>c. percentage c (length issues)) ?cs"
    by (simp add: scope_summary_lines o_def)
  then have "sum_list (map (\<lambda>(t, c, p). p) (snd (scope_summary issues))) =
               percentage (sum_list ?cs) (length issues)"
    by (simp only: percentage_sum)
  also have "\<dots> = 100" using assms by (simp add: Counter_sum percentage_whole)
  finally show "sum_list (map (\<lambda>(t, c, p). p) (snd (scope_summary issues))) = 100" .
  have "map (\<lambda>(t, c, p). c) (snd (scope_summary issues)) = ?cs"
    by (simp add: scope_summary_lines o_def)
  then show "sum_list (map (\<lambda>(t, c, p). c) (snd (scope_summary issues))) = length issues"
    by (simp add: Counter_sum)
qed

lemma scope_summary_entry:
  assumes "(t, c, p) \<in> set (snd (scope_summary issues))"
  shows "c = length (filter (\<lambda>r. m_type r = t) issues) \<and>
         p = 100 * of_nat c / of_nat (length issues)"
proof -
  from assms have tc: "(t, c) \<in> set (Counter (map m_type issues))"
    and p: "p = percentage c (length issues)"
    by (auto simp: scope_summary_lines)
  from Counter_entry [OF tc] have "t \<in> set (map m_type issues)"
    and c: "c = length (filter (\<lambda>k. k = t) (map m_type issues))" by simp_all
  then have "issues \<noteq> []" by auto
  with p have "p = 100 * of_nat c / of_nat (length issues)" by (simp add: percentage_def)
  moreover have "c = length (filter (\<lambda>r. m_type r = t) issues)"
    using c by (simp add: filter_map o_def)
  ultimately show ?thesis by simp
qed

lemma type_report_lines:
  "type_report rows =
     map (\<lambda>kv. (fst kv, length (snd kv), percentage (length (snd kv)) (length rows),
                 length (remdups (concat (map i_assignees (snd kv))))))
         (type_to_issues rows)"
  by (simp add: type_report_def case_prod_beta)

lemma type_report_entry:
  assumes "(t, c, p, people) \<in> set (type_report rows)"
  shows "c = length (filter (\<lambda>i. i_type i = t) rows) \<and> p = 100 * of_nat c / of_nat (length rows)"
proof -
  from assms obtain issues where e: "(t, issues) \<in> set (type_to_issues rows)"
    and c: "c = length issues" and p: "p = percentage c (length rows)"
    by (auto simp: type_report_lines)
  from type_to_issues_entry [OF e] have "t \<in> i_type ` set rows"
    and i: "issues = filter (\<lambda>i. i_type i = t) rows" by simp_all
  then have "rows \<noteq> []" by auto
  with p have "p = 100 * of_nat c / of_nat (length rows)" by (simp add: percentage_def)
  with c i show ?thesis by simp
qed

lemma type_report_sums:
  "sum_list (map (\<lambda>(t, c, p, people). c) (type_report rows)) = length rows"
  "rows \<noteq> [] \<Longrightarrow> sum_list (map (\<lambda>(t, c, p, people). p) (type_report rows)) = 100"
proof -
  let ?cs = "map (\<lambda>kv. length (snd kv)) (type_to_issues rows)"
  have c: "map (\<lambda>(t, c, p, people). c) (type_report rows) = ?cs"
    by (simp add: type_report_lines o_def)
  then show "sum_list (map (\<lambda>(t, c, p, people). c) (type_report rows)) = length rows"
    by (simp add: type_to_issues_sum)
  assume ne: "rows \<noteq> []"
  have "map (\<lambda>(t, c, p, people). p) (type_report rows) = map (\<lambda>c. percentage c (length rows)) ?cs"
    by (simp add: type_report_lines o_def)
  then have "sum_list (map (\<lambda>(t, c, p, people). p) (type_report rows)) =
               percentage (sum_list ?cs) (length rows)"
    by (simp only: percentage_sum)
  also have "\<dots> = 100" using ne by (simp add: type_to_issues_sum percentage_whole)
  finally show "sum_list (map (\<lambda>(t, c, p, people). p) (type_report rows)) = 100" .
qed

text \<open>
  C8. In the monthly report of \<^verbatim>\<open>capitalizacao.py\<close> every (month, scope) group is the list
  of exactly the extracted issues with that month and scope, in their order, and is not
  empty; its total is their number, the count of each type is the number of its issues of
  that type, the percentages \<open>100 * count / total\<close> add up to exactly 100 as rationals and the
  counts add up to the total; over all groups the totals add up to the number of extracted
  issues. In the report of \<^verbatim>\<open>team_metrics.py\<close> the count of a type is the number of filtered
  issues of that type, the counts add up to the number of filtered issues, and when there
  is at least one issue the percentages add up to exactly 100.
\<close>

theorem report_counts_and_percentages:
  "(\<forall>(m, scopes) \<in> set (month_scope_issues rows). \<forall>(s, issues) \<in> set scopes.
      issues = filter (\<lambda>r. m_month r = m \<and> m_scope r = s) rows \<and> issues \<noteq> [] \<and>
      fst (scope_summary issues) = length issues \<and>
      (\<forall>(t, c, p) \<in> set (snd (scope_summary issues)).
         c = length (filter (\<lambda>r. m_type r = t) issues) \<and>
         p = 100 * of_nat c / of_nat (length issues)) \<and>
      sum_list (map (\<lambda>(t, c, p). p) (snd (scope_summary issues))) = 100 \<and>
      sum_list (map (\<lambda>(t, c, p). c) (snd (scope_summary issues))) = length issues) \<and>
   sum_list (map (\<lambda>(m, scopes). sum_list (map (\<lambda>(s, issues). length issues) scopes))
                 (month_scope_issues rows)) = length rows \<and>
   (\<forall>(t, c, p, people) \<in> set (type_report filtered).
      c = length (filter (\<lambda>i. i_type i = t) filtered) \<and>
      p = 100 * of_nat c / of_nat (length filtered)) \<and>
   (filtered \<noteq> [] \<longrightarrow> sum_list (map (\<lambda>(t, c, p, people). p) (type_report filtered)) = 100) \<and>
   sum_list (map (\<lambda>(t, c, p, people). c) (type_report filtered)) = length filtered"
proof (intro conjI ballI impI)
  fix ms si
  assume ms: "ms \<in> set (month_scope_issues rows)"
  show "case ms of (m, scopes) \<Rightarrow> \<forall>(s, issues) \<in> set scopes.
      issues = filter (\<lambda>r. m_month r = m \<and> m_scope r = s) rows \<and> issues \<noteq> [] \<and>
      fst (scope_summary issues) = length issues \<and>
      (\<forall>(t, c, p) \<in> set (snd (scope_summary issues)).
         c = length (filter (\<lambda>r. m_type r = t) issues) \<and>
         p = 100 * of_nat c / of_nat (length issues)) \<and>
      sum_list (map (\<lambda>(t, c, p). p) (snd (scope_summary issues))) = 100 \<and>
      sum_list (map (\<lambda>(t, c, p). c) (snd (scope_summary issues))) = length issues"
  proof (cases ms)
    case (Pair m scopes)
    have group: "issues = filter (\<lambda>r. m_month r = m \<and> m_scope r = s) rows \<and> issues \<noteq> [] \<and>
      fst (scope_summary issues) = length issues \<and>
      (\<forall>(t, c, p) \<in> set (snd (scope_summary issues)).
         c = length (filter (\<lambda>r. m_type r = t) issues) \<and>
         p = 100 * of_nat c / of_nat (length issues)) \<and>
      sum_list (map (\<lambda>(t, c, p). p) (snd (scope_summary issues))) = 100 \<and>
      sum_list (map (\<lambda>(t, c, p). c) (snd (scope_summary issues))) = length issues"
      if "(s, issues) \<in> set scopes" for s issues
    proof -
      from ms Pair have "(m, scopes) \<in> set (month_scope_issues rows)" by simp
      from month_scope_issues_entry [OF this that]
      have e: "issues = filter (\<lambda>r. m_month r = m \<and> m_scope r = s) rows" and ne: "issues \<noteq> []"
        by blast+
      have "\<forall>(t, c, p) \<in> set (snd (scope_summary issues)).
         c = length (filter (\<lambda>r. m_type r = t) issues) \<and>
         p = 100 * of_nat c / of_nat (length issues)"
        using scope_summary_entry [of _ _ _ issues] by auto
      with e ne scope_summary_sums [OF ne] show ?thesis
        by (simp add: scope_summary_def)
    qed
    have "\<forall>(s, issues) \<in> set scopes.
      issues = filter (\<lambda>r. m_month r = m \<and> m_scope r = s) rows \<and> issues \<noteq> [] \<and>
      fst (scope_summary issues) = length issues \<and>
      (\<forall>(t, c, p) \<in> set (snd (scope_summary issues)).
         c = length (filter (\<lambda>r. m_type r = t) issues) \<and>
         p = 100 * of_nat c / of_nat (length issues)) \<and>
      sum_list (map (\<lambda>(t, c, p). p) (snd (scope_summary issues))) = 100 \<and>
      sum_list (map (\<lambda>(t, c, p). c) (snd (scope_summary issues))) = length issues"
    proof (intro ballI)
      fix si assume si: "si \<in> set scopes"
      obtain s issues where p: "si = (s, issues)" by (cases si)
      with si have "(s, issues) \<in> set scopes" by simp
      then show "case si of (s, issues) \<Rightarrow>
        issues = filter (\<lambda>r. m_month r = m \<and> m_scope r = s) rows \<and> issues \<noteq> [] \<and>
        fst (scope_summary issues) = length issues \<and>
        (\<forall>(t, c, p) \<in> set (snd (scope_summary issues)).
           c = length (filter (\<lambda>r. m_type r = t) issues) \<and>
           p = 100 * of_nat c / of_nat (length issues)) \<and>
        sum_list (map (\<lambda>(t, c, p). p) (snd (scope_summary issues))) = 100 \<and>
        sum_list (map (\<lambda>(t, c, p). c) (snd (scope_summary issues))) = length issues"
        unfolding p prod.case by (rule group)
    qed
    then show ?thesis unfolding Pair prod.case .
  qed
next
  show "sum_list (map (\<lambda>(m, scopes). sum_list (map (\<lambda>(s, issues). length issues) scopes))
                 (month_scope_issues rows)) = length rows"
    using month_scope_issues_sum [of rows] by (simp add: case_prod_unfold)
next
  fix e assume "e \<in> set (type_report filtered)"
  then show "case e of (t, c, p, people) \<Rightarrow>
      c = length (filter (\<lambda>i. i_type i = t) filtered) \<and>
      p = 100 * of_nat c / of_nat (length filtered)"
    using type_report_entry [of _ _ _ _ filtered] by (cases e) auto
next
  assume "filtered \<noteq> []"
  then show "sum_list (map (\<lambda>(t, c, p, people). p) (type_report filtered)) = 100"
    by (rule type_report_sums(2))
next
  show "sum_list (map (\<lambda>(t, c, p, people). c) (type_report filtered)) = length filtered"
    by (rule type_report_sums(1))
qed

theorem report_counts_and_percentages_witness:
  "month_scope_issues
     [september_row (JStr ''Bug''), september_row (JStr ''Bug''), september_row (JStr ''Feature'')] =
     [(''2025-09'', [(JStr ''Core'',
        [september_row (JStr ''Bug''), september_row (JStr ''Bug''), september_row (JStr ''Feature'')])])] \<and>
   scope_summary
     [september_row (JStr ''Bug''), september_row (JStr ''Bug''), september_row (JStr ''Feature'')] =
     (3, [(JStr ''Bug'', 2, 200 / 3), (JStr ''Feature'', 1, 100 / 3)]) \<and>
   sum_list (map (\<lambda>(t, c, p). p) (snd (scope_summary
     [september_row (JStr ''Bug''), september_row (JStr ''Bug''), september_row (JStr ''Feature'')]))) = 100 \<and>
   type_report
     [typed_row (JStr ''Bug'') [JStr ''ana''], typed_row (JStr ''Feature'') [JStr ''ana'', JStr ''bob''],
      typed_row (JStr ''Bug'') [JStr ''bob'']] =
     [(JStr ''Bug'', 2, 200 / 3, 2), (JStr ''Feature'', 1, 100 / 3, 2)] \<and>
   sum_list (map (\<lambda>(t, c, p, people). p) (type_report
     [typed_row (JStr ''Bug'') [JStr ''ana''], typed_row (JStr ''Feature'') [JStr ''ana'', JStr ''bob''],
      typed_row (JStr ''Bug'') [JStr ''bob'']])) = 100"
proof -
  let ?rows = "[september_row (JStr ''Bug''), september_row (JStr ''Bug''), september_row (JStr ''Feature'')]"
  let ?filtered = "[typed_row (JStr ''Bug'') [JStr ''ana''],
                    typed_row (JStr ''Feature'') [JStr ''ana'', JStr ''bob''],
                    typed_row (JStr ''Bug'') [JStr ''bob'']]"
  have g: "month_scope_issues ?rows = [(''2025-09'', [(JStr ''Core'', ?rows)])]"
    by code_simp
  have s: "scope_summary ?rows = (3, [(JStr ''Bug'', 2, 200 / 3), (JStr ''Feature'', 1, 100 / 3)])"
    by code_simp
  have t: "type_report ?filtered = [(JStr ''Bug'', 2, 200 / 3, 2), (JStr ''Feature'', 1, 100 / 3, 2)]"
    by code_simp
  note r = report_counts_and_percentages [of ?rows ?filtered]
  have m1: "(''2025-09'', [(JStr ''Core'', ?rows)]) \<in> set (month_scope_issues ?rows)"
    unfolding g by (rule list.set_intros(1))
  have m2: "(JStr ''Core'', ?rows) \<in> set [(JStr ''Core'', ?rows)]"
    by (rule list.set_intros(1))
  note r1 = bspec [OF r [THEN conjunct1] m1, unfolded prod.case]
  note r2 = bspec [OF r1 m2, unfolded prod.case]
  note a = r2 [THEN conjunct2, THEN conjunct2, THEN conjunct2, THEN conjunct2, THEN conjunct1]
  have ne: "?filtered \<noteq> []" by (rule list.distinct(2))
  note b = r [THEN conjunct2, THEN conjunct2, THEN conjunct2, THEN conjunct1, THEN mp, OF ne]
  from g s a t b show ?thesis by (intro conjI)
qed

end
